theory Spec2Isabelle
  imports Main
begin

section \<open>Values shared by the whole package\<close>

text \<open>
  A request is known to the package only through its pointer (\<^verbatim>\<open>*http.Request\<close>), which is
  what keys the context store; the model keeps the address.
\<close>

type_synonym request = nat

text \<open>
  A \<^verbatim>\<open>context.Context\<close> is an interface value of an external library. The package compares
  contexts by identity, builds them with \<^verbatim>\<open>context.Background()\<close> and
  \<^verbatim>\<open>context.WithCancel\<close>, and receives others from its callers. A cancellable context carries
  the address it was allocated at and its parent. The nil interface is \<open>None\<close>.
\<close>

datatype Context = Background | cancelCtx nat Context | callerCtx nat

type_synonym Context_iface = "Context option"

text \<open>
  The value a panic carries: the argument of an explicit \<^verbatim>\<open>panic("...")\<close>, an error
  raised by the Go runtime, or nil (\<^verbatim>\<open>panic(nil)\<close>).
\<close>

datatype panic_value = PanicString string | RuntimeError string | PanicNil

section \<open>Go maps\<close>

text \<open>
  A Go map variable is nil until \<^verbatim>\<open>make\<close> allocates it (\<open>None\<close> here). Indexing a nil
  map or a missing key gives the zero value of the element type, \<^verbatim>\<open>delete\<close> on a nil map
  does nothing, and assigning into a nil map panics.
\<close>

type_synonym ('k, 'v) go_map = "('k \<rightharpoonup> 'v) option"

definition go_index :: "'v \<Rightarrow> ('k, 'v) go_map \<Rightarrow> 'k \<Rightarrow> 'v" where
  "go_index zero m k =
     (case m of None \<Rightarrow> zero
      | Some f \<Rightarrow> (case f k of None \<Rightarrow> zero | Some v \<Rightarrow> v))"

definition go_assign :: "('k, 'v) go_map \<Rightarrow> 'k \<Rightarrow> 'v \<Rightarrow> panic_value + ('k, 'v) go_map" where
  "go_assign m k v =
     (case m of None \<Rightarrow> Inl (RuntimeError ''assignment to entry in nil map'')
      | Some f \<Rightarrow> Inr (Some (f(k \<mapsto> v))))"

definition go_delete :: "('k, 'v) go_map \<Rightarrow> 'k \<Rightarrow> ('k, 'v) go_map" where
  "go_delete m k = (case m of None \<Rightarrow> None | Some f \<Rightarrow> Some (f(k := None)))"

definition has_entry :: "('k, 'v) go_map \<Rightarrow> 'k \<Rightarrow> bool" where
  "has_entry m k = (case m of None \<Rightarrow> False | Some f \<Rightarrow> f k \<noteq> None)"

section \<open>The context store\<close>

text \<open>
  \<^verbatim>\<open>contextStore\<close> is a mutex and a map. Every method holds the mutex from its first
  statement to its return, so in a sequential run the methods are functions of the map. The
  element type is a parameter: one context per request in the single-slot store, a stack of
  contexts in the other. The zero value of the struct, which is what the package-level
  \<^verbatim>\<open>sharedContextStore\<close> starts as, has a nil map.
\<close>

record ('v) contextStore =
  contexts :: "(request, 'v) go_map"

definition zero_store :: "'v contextStore" where
  "zero_store = \<lparr>contexts = None\<rparr>"

subsection \<open>Single-slot store: Get, Add, Remove\<close>

definition contextStore_Get :: "Context_iface contextStore \<Rightarrow> request \<Rightarrow> Context_iface" where
  "contextStore_Get s req =
     (if contexts s = None then None
      else go_index None (contexts s) req)"

definition contextStore_Add ::
  "Context_iface contextStore \<Rightarrow> request \<Rightarrow> Context_iface
     \<Rightarrow> panic_value + Context_iface contextStore" where
  "contextStore_Add s req ctx =
     (let s1 = (if contexts s = None then s\<lparr>contexts := Some Map.empty\<rparr> else s)
      in case go_assign (contexts s1) req ctx of
           Inl p \<Rightarrow> Inl p
         | Inr m \<Rightarrow> Inr (s1\<lparr>contexts := m\<rparr>))"

definition contextStore_Remove :: "Context_iface contextStore \<Rightarrow> request \<Rightarrow> Context_iface contextStore" where
  "contextStore_Remove s req =
     (if contexts s = None then s
      else s\<lparr>contexts := go_delete (contexts s) req\<rparr>)"

subsection \<open>Stack store: Get, Push, Pop\<close>

definition unbalanced :: panic_value where
  "unbalanced = PanicString ''unbalanced Push/Pop calls''"

definition contextStack_Get :: "Context_iface list contextStore \<Rightarrow> request \<Rightarrow> Context_iface" where
  "contextStack_Get s req =
     (if contexts s = None then None
      else let stack = go_index [] (contexts s) req
           in if length stack = 0 then None
              else stack ! (length stack - 1))"

definition contextStack_Push ::
  "Context_iface list contextStore \<Rightarrow> request \<Rightarrow> Context_iface
     \<Rightarrow> panic_value + Context_iface list contextStore" where
  "contextStack_Push s req ctx =
     (let s1 = (if contexts s = None then s\<lparr>contexts := Some Map.empty\<rparr> else s)
      in case go_assign (contexts s1) req (go_index [] (contexts s1) req @ [ctx]) of
           Inl p \<Rightarrow> Inl p
         | Inr m \<Rightarrow> Inr (s1\<lparr>contexts := m\<rparr>))"

definition contextStack_Pop ::
  "Context_iface list contextStore \<Rightarrow> request \<Rightarrow> Context_iface
     \<Rightarrow> panic_value + Context_iface list contextStore" where
  "contextStack_Pop s req ctx =
     (if contexts s = None then Inr s
      else let stack = go_index [] (contexts s) req
           in if length stack = 0 then Inl unbalanced
              else if stack ! (length stack - 1) \<noteq> ctx then Inl unbalanced
              else let stack' = take (length stack - 1) stack
                   in if length stack' = 0
                      then Inr (s\<lparr>contexts := go_delete (contexts s) req\<rparr>)
                      else (case go_assign (contexts s) req stack' of
                              Inl p \<Rightarrow> Inl p
                            | Inr m \<Rightarrow> Inr (s\<lparr>contexts := m\<rparr>)))"

text \<open>Running a list of \<^verbatim>\<open>Add\<close> (or \<^verbatim>\<open>Push\<close>) calls, stopping at the first panic.\<close>

fun Add_all ::
  "Context_iface contextStore \<Rightarrow> (request \<times> Context_iface) list
     \<Rightarrow> panic_value + Context_iface contextStore" where
  "Add_all s [] = Inr s"
| "Add_all s ((req, ctx) # rest) =
     (case contextStore_Add s req ctx of Inl p \<Rightarrow> Inl p | Inr s' \<Rightarrow> Add_all s' rest)"

fun Push_all ::
  "Context_iface list contextStore \<Rightarrow> (request \<times> Context_iface) list
     \<Rightarrow> panic_value + Context_iface list contextStore" where
  "Push_all s [] = Inr s"
| "Push_all s ((req, ctx) # rest) =
     (case contextStack_Push s req ctx of Inl p \<Rightarrow> Inl p | Inr s' \<Rightarrow> Push_all s' rest)"

section \<open>The world a request is served in\<close>

text \<open>
  Modelled from the spec: the response wrapper (\<^verbatim>\<open>NewResponseWriter\<close>, whose file is not
  part of the sources at hand) "decorates the raw response writer to record the numeric status
  code and byte count written". Building the wrapper writes nothing; it is a new writer value
  around the one it is given.
\<close>

datatype response_writer = rawWriter nat | responseWriter response_writer

definition NewResponseWriter :: "response_writer \<Rightarrow> response_writer" where
  "NewResponseWriter rw = responseWriter rw"

datatype log_Logger = log_New string string int

text \<open>
  What a run does to the outside is kept as a list of events, oldest first: calls of the
  response writer's methods, lines handed to a logger, and the marks that the handlers of a
  test chain leave before and after they call \<^verbatim>\<open>next\<close>.
\<close>

datatype event =
    WriteHeader response_writer int
  | Write response_writer string
  | Printf log_Logger string
  | Before nat
  | After nat

text \<open>
  The state the package's functions read and change: the package-level store, the next free
  address for a context, the addresses of the contexts whose cancel function has run, the
  events so far, and what \<^verbatim>\<open>runtime.Stack\<close> would print (for the current goroutine, or for
  all of them when the flag is set).
\<close>

record world =
  sharedContextStore :: "Context_iface contextStore"
  next_addr :: nat
  cancelled :: "nat set"
  events :: "event list"
  goroutine_stack :: "bool \<Rightarrow> string"

text \<open>A call either returns or panics; both leave a world behind.\<close>

datatype outcome = Return world | Panic panic_value world

fun world_of :: "outcome \<Rightarrow> world" where
  "world_of (Return w) = w"
| "world_of (Panic p w) = w"

fun panicked :: "outcome \<Rightarrow> bool" where
  "panicked (Return w) = False"
| "panicked (Panic p w) = True"

text \<open>Statement after statement: the second runs only when the first returned.\<close>

fun then_do :: "outcome \<Rightarrow> (world \<Rightarrow> outcome) \<Rightarrow> outcome" where
  "then_do (Return w) f = f w"
| "then_do (Panic p w) f = Panic p w"

text \<open>
  \<^verbatim>\<open>defer f()\<close> for an \<open>f\<close> that neither panics nor recovers: it runs when the rest of the
  function has returned or panicked, and a panic goes on afterwards.
\<close>

fun deferred :: "(world \<Rightarrow> world) \<Rightarrow> outcome \<Rightarrow> outcome" where
  "deferred f (Return w) = Return (f w)"
| "deferred f (Panic p w) = Panic p (f w)"



definition store_Get :: "request \<Rightarrow> world \<Rightarrow> Context_iface" where
  "store_Get r w = contextStore_Get (sharedContextStore w) r"

definition store_Add :: "request \<Rightarrow> Context_iface \<Rightarrow> world \<Rightarrow> outcome" where
  "store_Add r ctx w =
     (case contextStore_Add (sharedContextStore w) r ctx of
        Inl p \<Rightarrow> Panic p w
      | Inr s \<Rightarrow> Return (w\<lparr>sharedContextStore := s\<rparr>))"

definition store_Remove :: "request \<Rightarrow> world \<Rightarrow> world" where
  "store_Remove r w = w\<lparr>sharedContextStore := contextStore_Remove (sharedContextStore w) r\<rparr>"

text \<open>
  \<^verbatim>\<open>context.WithCancel(parent)\<close> returns a new context and its cancel function; calling the
  cancel function marks the context.
\<close>

definition cancel :: "nat \<Rightarrow> world \<Rightarrow> world" where
  "cancel a w = w\<lparr>cancelled := insert a (cancelled w)\<rparr>"

definition context_WithCancel :: "Context \<Rightarrow> world \<Rightarrow> (Context \<times> (world \<Rightarrow> world)) \<times> world" where
  "context_WithCancel parent w =
     ((cancelCtx (next_addr w) parent, cancel (next_addr w)), w\<lparr>next_addr := Suc (next_addr w)\<rparr>)"

fun Done :: "world \<Rightarrow> Context \<Rightarrow> bool" where
  "Done w Background = False"
| "Done w (cancelCtx a parent) = (a \<in> cancelled w \<or> Done w parent)"
| "Done w (callerCtx a) = (a \<in> cancelled w)"

definition rw_WriteHeader :: "response_writer \<Rightarrow> int \<Rightarrow> world \<Rightarrow> world" where
  "rw_WriteHeader rw code w = w\<lparr>events := events w @ [WriteHeader rw code]\<rparr>"

definition rw_Write :: "response_writer \<Rightarrow> string \<Rightarrow> world \<Rightarrow> world" where
  "rw_Write rw b w = w\<lparr>events := events w @ [Write rw b]\<rparr>"


section \<open>Handlers and the chain\<close>

type_synonym NextFunc = "Context_iface \<Rightarrow> response_writer \<Rightarrow> request \<Rightarrow> world \<Rightarrow> outcome"

type_synonym Handler = "Context_iface \<Rightarrow> response_writer \<Rightarrow> request \<Rightarrow> NextFunc \<Rightarrow> world \<Rightarrow> outcome"

type_synonym http_Handler = "response_writer \<Rightarrow> request \<Rightarrow> world \<Rightarrow> outcome"

definition HandlerFunc :: "Handler \<Rightarrow> Handler" where
  "HandlerFunc h = (\<lambda>ctx rw r next. h ctx rw r next)"

text \<open>
  \<^verbatim>\<open>middleware\<close> pairs a handler (an interface value, nil in the zero struct) with a pointer
  to the next node (nil in the zero struct).
\<close>

datatype middleware = Node (mw_handler: "Handler option") (mw_next: "middleware option")

definition nil_dereference :: panic_value where
  "nil_dereference = RuntimeError ''invalid memory address or nil pointer dereference''"

text \<open>
  \<^verbatim>\<open>m.handler.ServeHTTP(ctx, rw, r, m.next.ServeHTTP)\<close>: the method value
  \<^verbatim>\<open>m.next.ServeHTTP\<close> has a value receiver, so it copies \<^verbatim>\<open>*m.next\<close> when it is built;
  a nil \<^verbatim>\<open>m.next\<close> or a nil handler panics.
\<close>

fun middleware_ServeHTTP :: "middleware \<Rightarrow> NextFunc" where
  "middleware_ServeHTTP (Node h None) = (\<lambda>ctx rw r w. Panic nil_dereference w)"
| "middleware_ServeHTTP (Node None (Some n)) = (\<lambda>ctx rw r w. Panic nil_dereference w)"
| "middleware_ServeHTTP (Node (Some h) (Some n)) =
     (\<lambda>ctx rw r w. h ctx rw r (middleware_ServeHTTP n) w)"

definition voidMiddleware :: middleware where
  "voidMiddleware =
     Node (Some (HandlerFunc (\<lambda>ctx rw r next w. Return w))) (Some (Node None None))"

fun build :: "Handler list \<Rightarrow> middleware" where
  "build [] = voidMiddleware"
| "build (h # hs) =
     (let next = (if length (h # hs) > 1 then build hs else voidMiddleware)
      in Node (Some h) (Some next))"

definition Wrap :: "http_Handler \<Rightarrow> Handler" where
  "Wrap handler =
     HandlerFunc (\<lambda>ctx rw r next w.
       then_do (store_Add r ctx w) (\<lambda>w1.
       then_do (handler rw r w1) (\<lambda>w2.
       next (store_Get r w2) rw r w2)))"

text \<open>
  The handler shape of the README: some work, one call of \<^verbatim>\<open>next\<close> with the arguments
  received, some more work. The two pieces of work see the handler's arguments.
\<close>

type_synonym work = "Context_iface \<Rightarrow> response_writer \<Rightarrow> request \<Rightarrow> world \<Rightarrow> world"

definition MyMiddleware :: "work \<Rightarrow> work \<Rightarrow> Handler" where
  "MyMiddleware before after =
     HandlerFunc (\<lambda>ctx rw r next w.
       then_do (next ctx rw r (before ctx rw r w)) (\<lambda>w'. Return (after ctx rw r w')))"

section \<open>The dispatcher\<close>

record Camillo =
  n_ctx :: Context_iface
  n_middleware :: middleware
  n_handlers :: "Handler list"

definition NewWithContext :: "Context_iface \<Rightarrow> Handler list \<Rightarrow> Camillo" where
  "NewWithContext ctx hs = \<lparr>n_ctx = ctx, n_middleware = build hs, n_handlers = hs\<rparr>"

definition New :: "Handler list \<Rightarrow> Camillo" where
  "New hs = NewWithContext (Some Background) hs"

definition Use :: "Camillo \<Rightarrow> Handler \<Rightarrow> Camillo" where
  "Use n h =
     (let n1 = n\<lparr>n_handlers := n_handlers n @ [h]\<rparr>
      in n1\<lparr>n_middleware := build (n_handlers n1)\<rparr>)"

definition UseHandler :: "Camillo \<Rightarrow> http_Handler \<Rightarrow> Camillo" where
  "UseHandler n handler = Use n (Wrap handler)"

definition Camillo_ServeHTTP :: "Camillo \<Rightarrow> http_Handler" where
  "Camillo_ServeHTTP n rw r w =
     (let found = store_Get r w
      in if found \<noteq> None
         then middleware_ServeHTTP (n_middleware n) found (NewResponseWriter rw) r w
         else
           let base = (case n_ctx n of None \<Rightarrow> Background | Some b \<Rightarrow> b);
               ((ctx, cancel_func), w1) = context_WithCancel base w
           in deferred cancel_func
                (then_do (store_Add r (Some ctx) w1) (\<lambda>w2.
                   deferred (store_Remove r)
                     (middleware_ServeHTTP (n_middleware n) (Some ctx) (NewResponseWriter rw) r w2))))"

section \<open>Recovery\<close>









section \<open>Vocabulary of the statements\<close>

text \<open>The world once \<^verbatim>\<open>sharedContextStore.Add(r, c)\<close> has run in \<open>w\<close>.\<close>

definition registered :: "request \<Rightarrow> Context_iface \<Rightarrow> world \<Rightarrow> world" where
  "registered r c w =
     w\<lparr>sharedContextStore := (sharedContextStore w)
          \<lparr>contexts := Some ((case contexts (sharedContextStore w) of None \<Rightarrow> Map.empty | Some f \<Rightarrow> f)
                             (r \<mapsto> c))\<rparr>\<rparr>"

text \<open>The context a dispatcher derives when it finds none for the request.\<close>

definition fresh_ctx :: "Camillo \<Rightarrow> world \<Rightarrow> Context" where
  "fresh_ctx n w = cancelCtx (next_addr w) (case n_ctx n of None \<Rightarrow> Background | Some b \<Rightarrow> b)"

text \<open>
  A call that, entered while \<^verbatim>\<open>Get\<close> finds a context for \<open>r\<close>, leaves in a world where
  \<^verbatim>\<open>Get\<close> finds one, whether it returns or panics; a \<^verbatim>\<open>next\<close> function that is such a call
  whenever it is given a context that is not nil; and a handler that is such a call whenever
  it is given a context that is not nil and such a \<^verbatim>\<open>next\<close>.
\<close>

definition keeps_context :: "request \<Rightarrow> (world \<Rightarrow> outcome) \<Rightarrow> bool" where
  "keeps_context r f =
     (\<forall>w. store_Get r w \<noteq> None \<longrightarrow> store_Get r (world_of (f w)) \<noteq> None)"

definition keeps_context_next :: "request \<Rightarrow> NextFunc \<Rightarrow> bool" where
  "keeps_context_next r nxt = (\<forall>c rw. c \<noteq> None \<longrightarrow> keeps_context r (nxt c rw r))"

definition keeps_context_handler :: "request \<Rightarrow> Handler \<Rightarrow> bool" where
  "keeps_context_handler r h =
     (\<forall>c rw nxt. c \<noteq> None \<and> keeps_context_next r nxt \<longrightarrow> keeps_context r (h c rw r nxt))"

text \<open>Handlers of test chains: one that marks both of its phases, one that answers, one that panics.\<close>

definition emit :: "event \<Rightarrow> world \<Rightarrow> world" where
  "emit e w = w\<lparr>events := events w @ [e]\<rparr>"

definition onion :: "nat \<Rightarrow> Handler" where
  "onion i = MyMiddleware (\<lambda>ctx rw r. emit (Before i)) (\<lambda>ctx rw r. emit (After i))"

definition echoHandler :: http_Handler where
  "echoHandler rw r w = Return (rw_Write rw ''hi'' (rw_WriteHeader rw 200 w))"

definition faultingHandler :: Handler where
  "faultingHandler ctx rw r nxt w = Panic (PanicString ''boom'') w"

text \<open>The world at process start: nothing stored, nothing allocated, nothing written.\<close>

definition world0 :: world where
  "world0 =
     \<lparr>sharedContextStore = zero_store, next_addr = 0, cancelled = {}, events = [],
      goroutine_stack = (\<lambda>all. ''goroutine 1 [running]:'')\<rparr>"

section \<open>The store obeys its laws\<close>

lemma contextStore_Add_eq:
  "contextStore_Add s r c =
     Inr (s\<lparr>contexts := Some ((case contexts s of None \<Rightarrow> Map.empty | Some f \<Rightarrow> f)(r \<mapsto> c))\<rparr>)"
  by (cases "contexts s") (simp_all add: contextStore_Add_def go_assign_def)

lemma contextStack_Push_eq:
  "contextStack_Push s r c =
     Inr (s\<lparr>contexts := Some ((case contexts s of None \<Rightarrow> Map.empty | Some f \<Rightarrow> f)
                                  (r \<mapsto> go_index [] (contexts s) r @ [c]))\<rparr>)"
  by (cases "contexts s") (simp_all add: contextStack_Push_def go_assign_def go_index_def)

lemma Get_no_entry: "\<not> has_entry (contexts s) r \<Longrightarrow> contextStore_Get s r = None"
  by (simp add: contextStore_Get_def has_entry_def go_index_def split: option.splits)

lemma Stack_Get_no_entry: "\<not> has_entry (contexts s) r \<Longrightarrow> contextStack_Get s r = None"
  by (simp add: contextStack_Get_def has_entry_def go_index_def split: option.splits)

lemma Get_after_Add: "contextStore_Add s r c = Inr s' \<Longrightarrow> contextStore_Get s' r = c"
  by (auto simp add: contextStore_Add_eq contextStore_Get_def go_index_def split: option.splits)

lemma Get_after_Remove: "contextStore_Get (contextStore_Remove s r) r = None"
  by (simp add: contextStore_Remove_def contextStore_Get_def go_index_def go_delete_def split: option.splits)

lemma no_entry_after_Remove: "\<not> has_entry (contexts (contextStore_Remove s r)) r"
  by (simp add: contextStore_Remove_def has_entry_def go_delete_def split: option.splits)

lemma Add_all_no_entry:
  "r \<notin> fst ` set adds \<Longrightarrow> \<not> has_entry (contexts s) r \<Longrightarrow>
     \<exists>s'. Add_all s adds = Inr s' \<and> \<not> has_entry (contexts s') r"
proof (induction adds arbitrary: s)
  case Nil
  then show ?case by simp
next
  case (Cons a adds)
  obtain k c where a: "a = (k, c)" by (cases a)
  let ?s1 = "s\<lparr>contexts := Some ((case contexts s of None \<Rightarrow> Map.empty | Some f \<Rightarrow> f)(k \<mapsto> c))\<rparr>"
  from Cons.prems a have "k \<noteq> r" by auto
  with Cons.prems(2) have "\<not> has_entry (contexts ?s1) r"
    by (simp add: has_entry_def split: option.splits)
  moreover from Cons.prems(1) have "r \<notin> fst ` set adds" by simp
  ultimately obtain s' where "Add_all ?s1 adds = Inr s'" "\<not> has_entry (contexts s') r"
    using Cons.IH by blast
  then show ?case by (simp add: a contextStore_Add_eq)
qed

lemma Push_all_no_entry:
  "r \<notin> fst ` set pushes \<Longrightarrow> \<not> has_entry (contexts s) r \<Longrightarrow>
     \<exists>s'. Push_all s pushes = Inr s' \<and> \<not> has_entry (contexts s') r"
proof (induction pushes arbitrary: s)
  case Nil
  then show ?case by simp
next
  case (Cons a pushes)
  obtain k c where a: "a = (k, c)" by (cases a)
  let ?s1 = "s\<lparr>contexts := Some ((case contexts s of None \<Rightarrow> Map.empty | Some f \<Rightarrow> f)
                                  (k \<mapsto> go_index [] (contexts s) k @ [c]))\<rparr>"
  from Cons.prems a have "k \<noteq> r" by auto
  with Cons.prems(2) have "\<not> has_entry (contexts ?s1) r"
    by (simp add: has_entry_def split: option.splits)
  moreover from Cons.prems(1) have "r \<notin> fst ` set pushes" by simp
  ultimately obtain s' where "Push_all ?s1 pushes = Inr s'" "\<not> has_entry (contexts s') r"
    using Cons.IH by blast
  then show ?case by (simp add: a contextStack_Push_eq)
qed

lemma Stack_Get_after_Push: "contextStack_Push s r c = Inr s' \<Longrightarrow> contextStack_Get s' r = c"
  by (auto simp add: contextStack_Push_eq contextStack_Get_def go_index_def split: option.splits)

lemma Pop_after_Push_only:
  assumes "go_index [] (contexts s) r = []"
  shows "\<exists>s1 s2. contextStack_Push s r c = Inr s1 \<and> contextStack_Pop s1 r c = Inr s2
           \<and> contextStack_Get s2 r = None \<and> \<not> has_entry (contexts s2) r"
  using assms
  by (simp add: contextStack_Push_eq contextStack_Pop_def contextStack_Get_def go_index_def
      go_delete_def has_entry_def split: option.splits)

text \<open>
  C4. In both variants \<^verbatim>\<open>Get\<close> answers nil for a key that was never added (in any store
  reached from the zero value by adding other keys, and in any store without an entry for the
  key) and answers the context just added or pushed under the key. In the single-slot store
  it answers nil after \<^verbatim>\<open>Remove\<close>; in the stack store it answers nil after a context
  pushed on an empty stack is popped again. \<^verbatim>\<open>Add\<close> and \<^verbatim>\<open>Push\<close> never panic.
\<close>

theorem store_get_laws:
  "(r \<notin> fst ` set adds \<longrightarrow> (\<exists>s'. Add_all zero_store adds = Inr s' \<and> contextStore_Get s' r = None))
   \<and> (\<not> has_entry (contexts s) r \<longrightarrow> contextStore_Get s r = None)
   \<and> (\<exists>s'. contextStore_Add s r c = Inr s' \<and> contextStore_Get s' r = c)
   \<and> contextStore_Get (contextStore_Remove s r) r = None
   \<and> (\<exists>s'. contextStore_Add s r c = Inr s' \<and> contextStore_Get (contextStore_Remove s' r) r = None)
   \<and> (r \<notin> fst ` set pushes \<longrightarrow> (\<exists>t'. Push_all zero_store pushes = Inr t' \<and> contextStack_Get t' r = None))
   \<and> (\<not> has_entry (contexts t) r \<longrightarrow> contextStack_Get t r = None)
   \<and> (\<exists>t'. contextStack_Push t r c = Inr t' \<and> contextStack_Get t' r = c)
   \<and> (go_index [] (contexts t) r = [] \<longrightarrow>
        (\<exists>t1 t2. contextStack_Push t r c = Inr t1 \<and> contextStack_Pop t1 r c = Inr t2
                  \<and> contextStack_Get t2 r = None))"
proof -
  have z: "\<not> has_entry (contexts (zero_store :: Context_iface contextStore)) r"
    "\<not> has_entry (contexts (zero_store :: Context_iface list contextStore)) r"
    by (simp_all add: zero_store_def has_entry_def)
  have a1: "r \<notin> fst ` set adds \<longrightarrow> (\<exists>s'. Add_all zero_store adds = Inr s' \<and> contextStore_Get s' r = None)"
    using Add_all_no_entry [OF _ z(1)] Get_no_entry by blast
  have a2: "\<exists>s'. contextStore_Add s r c = Inr s' \<and> contextStore_Get s' r = c"
    using Get_after_Add contextStore_Add_eq by blast
  have a3: "\<exists>s'. contextStore_Add s r c = Inr s' \<and> contextStore_Get (contextStore_Remove s' r) r = None"
    using Get_after_Remove contextStore_Add_eq by blast
  have b1: "r \<notin> fst ` set pushes \<longrightarrow> (\<exists>t'. Push_all zero_store pushes = Inr t' \<and> contextStack_Get t' r = None)"
    using Push_all_no_entry [OF _ z(2)] Stack_Get_no_entry by blast
  have b2: "\<exists>t'. contextStack_Push t r c = Inr t' \<and> contextStack_Get t' r = c"
    using Stack_Get_after_Push contextStack_Push_eq by blast
  have b3: "go_index [] (contexts t) r = [] \<longrightarrow>
        (\<exists>t1 t2. contextStack_Push t r c = Inr t1 \<and> contextStack_Pop t1 r c = Inr t2
                  \<and> contextStack_Get t2 r = None)"
    using Pop_after_Push_only by blast
  have c1: "\<not> has_entry (contexts s) r \<longrightarrow> contextStore_Get s r = None"
    using Get_no_entry by blast
  have c2: "\<not> has_entry (contexts t) r \<longrightarrow> contextStack_Get t r = None"
    using Stack_Get_no_entry by blast
  have c3: "contextStore_Get (contextStore_Remove s r) r = None"
    by (rule Get_after_Remove)
  show ?thesis
    by (intro conjI; fact)
qed

theorem store_get_laws_witness:
  "(2::nat) \<notin> fst ` set [(1, Some Background)]
   \<and> \<not> has_entry (contexts (zero_store :: Context_iface contextStore)) 2
   \<and> \<not> has_entry (contexts (zero_store :: Context_iface list contextStore)) 2
   \<and> go_index [] (contexts (zero_store :: Context_iface list contextStore)) 2 = []
   \<and> (\<exists>s'. Add_all zero_store [(1, Some Background)] = Inr s' \<and> contextStore_Get s' 2 = None)
   \<and> contextStore_Get zero_store 2 = None
   \<and> (\<exists>t1 t2. contextStack_Push zero_store 2 (Some (callerCtx 7)) = Inr t1
          \<and> contextStack_Pop t1 2 (Some (callerCtx 7)) = Inr t2 \<and> contextStack_Get t2 2 = None)"
  using store_get_laws [of 2 "[(1, Some Background)]" zero_store "Some (callerCtx 7)"
                           "[(1, Some Background)]" zero_store]
  by (simp add: zero_store_def has_entry_def go_index_def)

text \<open>
  C9. On the zero value of the store, whose map is nil, \<^verbatim>\<open>Get\<close> answers nil,
  \<^verbatim>\<open>Remove\<close> and \<^verbatim>\<open>Pop\<close> return the store as it was, and \<^verbatim>\<open>Add\<close> and
  \<^verbatim>\<open>Push\<close> allocate the map and store the context; none of them panics. On any store at
  all \<^verbatim>\<open>Add\<close> and \<^verbatim>\<open>Push\<close> return.
\<close>

theorem zero_store_total:
  "contextStore_Get zero_store r = None
   \<and> contextStore_Remove zero_store r = zero_store
   \<and> contextStore_Add zero_store r c = Inr \<lparr>contexts = Some [r \<mapsto> c]\<rparr>
   \<and> contextStack_Get zero_store r = None
   \<and> contextStack_Pop zero_store r c = Inr zero_store
   \<and> contextStack_Push zero_store r c = Inr \<lparr>contexts = Some [r \<mapsto> [c]]\<rparr>
   \<and> (\<exists>s'. contextStore_Add s r c = Inr s')
   \<and> (\<exists>t'. contextStack_Push t r c = Inr t')"
  by (simp add: zero_store_def contextStore_Get_def contextStore_Remove_def contextStore_Add_eq
      contextStack_Get_def contextStack_Pop_def contextStack_Push_eq go_index_def)

text \<open>
  Against C5 as it is worded: no context is stacked for request 5 in the zero store, and
  \<^verbatim>\<open>Pop\<close> returns there instead of panicking, because of its guard on the nil map.
\<close>

theorem Pop_nil_map_counterexample:
  "go_index [] (contexts (zero_store :: Context_iface list contextStore)) 5 = []
   \<and> contextStack_Pop zero_store 5 (Some Background) = Inr zero_store"
  by (simp add: zero_store_def contextStack_Pop_def go_index_def)

text \<open>
  C5, amended. Once the map of the stack store is allocated, a \<^verbatim>\<open>Pop\<close> whose context is
  not the top of the request's stack, or that finds no context stacked for the request,
  panics with "unbalanced Push/Pop calls". While the map is nil, \<^verbatim>\<open>Pop\<close> returns the
  store unchanged.
\<close>

theorem Pop_unbalanced_panics:
  "(contexts s \<noteq> None
      \<and> (go_index [] (contexts s) r = [] \<or> last (go_index [] (contexts s) r) \<noteq> c)
      \<longrightarrow> contextStack_Pop s r c = Inl unbalanced)
   \<and> (contexts s = None \<longrightarrow> contextStack_Pop s r c = Inr s)"
  by (auto simp add: contextStack_Pop_def Let_def last_conv_nth)

theorem Pop_unbalanced_panics_witness:
  "contexts \<lparr>contexts = Some [5 \<mapsto> [Some Background]]\<rparr> \<noteq> None
   \<and> last (go_index [] (contexts \<lparr>contexts = Some [5 \<mapsto> [Some Background]]\<rparr>) 5) \<noteq> Some (callerCtx 1)
   \<and> go_index [] (contexts \<lparr>contexts = Some [5 \<mapsto> [Some Background]]\<rparr>) 6 = []
   \<and> contextStack_Pop \<lparr>contexts = Some [5 \<mapsto> [Some Background]]\<rparr> 5 (Some (callerCtx 1)) = Inl unbalanced
   \<and> contextStack_Pop \<lparr>contexts = Some [5 \<mapsto> [Some Background]]\<rparr> 6 (Some Background) = Inl unbalanced
   \<and> contextStack_Pop \<lparr>contexts = None\<rparr> 5 (Some Background) = Inr \<lparr>contexts = None\<rparr>"
  using Pop_unbalanced_panics [of "\<lparr>contexts = Some [5 \<mapsto> [Some Background]]\<rparr>" 5 "Some (callerCtx 1)"]
    Pop_unbalanced_panics [of "\<lparr>contexts = Some [5 \<mapsto> [Some Background]]\<rparr>" 6 "Some Background"]
    Pop_unbalanced_panics [of "\<lparr>contexts = None\<rparr>" 5 "Some Background"]
  by (simp add: go_index_def)

section \<open>The chain\<close>

lemma serve_void [simp]: "middleware_ServeHTTP voidMiddleware c rw r w = Return w"
  by (simp add: voidMiddleware_def HandlerFunc_def)

lemma build_Cons: "build (h # hs) = Node (Some h) (Some (build hs))"
  by (cases hs) simp_all

lemma serve_build_Cons:
  "middleware_ServeHTTP (build (h # hs)) c rw r w = h c rw r (middleware_ServeHTTP (build hs)) w"
  by (simp only: build_Cons middleware_ServeHTTP.simps)

lemma MyMiddleware_apply:
  "MyMiddleware before after c rw r nxt w =
     then_do (nxt c rw r (before c rw r w)) (\<lambda>w'. Return (after c rw r w'))"
  by (simp add: MyMiddleware_def HandlerFunc_def)

lemma serve_onion_chain:
  "middleware_ServeHTTP (build (map (\<lambda>(before, after). MyMiddleware before after) ps)) c rw r w =
     Return (fold (\<lambda>p. snd p c rw r) (rev ps) (fold (\<lambda>p. fst p c rw r) ps w))"
proof (induction ps arbitrary: w)
  case Nil
  show ?case by simp
next
  case (Cons p ps)
  obtain b a where p: "p = (b, a)" by (cases p)
  let ?rest = "build (map (\<lambda>(before, after). MyMiddleware before after) ps)"
  have "middleware_ServeHTTP (build (map (\<lambda>(before, after). MyMiddleware before after) (p # ps))) c rw r w
        = MyMiddleware b a c rw r (middleware_ServeHTTP ?rest) w"
    by (simp add: p serve_build_Cons del: build.simps)
  also have "\<dots> = then_do (middleware_ServeHTTP ?rest c rw r (b c rw r w)) (\<lambda>w'. Return (a c rw r w'))"
    by (rule MyMiddleware_apply)
  also have "\<dots> = Return (a c rw r (fold (\<lambda>p. snd p c rw r) (rev ps) (fold (\<lambda>p. fst p c rw r) ps (b c rw r w))))"
    by (simp only: Cons.IH then_do.simps)
  also have "\<dots> = Return (fold (\<lambda>p. snd p c rw r) (rev (p # ps)) (fold (\<lambda>p. fst p c rw r) (p # ps) w))"
    by (simp add: p)
  finally show ?case .
qed

lemma fold_emit: "fold (\<lambda>i. emit (f i)) ids w = w\<lparr>events := events w @ map f ids\<rparr>"
  by (induction ids arbitrary: w) (simp_all add: emit_def)

lemma serve_marks:
  "middleware_ServeHTTP (build (map onion ids)) c rw r w =
     Return (w\<lparr>events := events w @ map Before ids @ map After (rev ids)\<rparr>)"
proof -
  let ?ps = "map (\<lambda>i. (\<lambda>ctx rw r. emit (Before i), \<lambda>ctx rw r. emit (After i))) ids"
  have m: "map onion ids = map (\<lambda>(before, after). MyMiddleware before after) ?ps"
    by (simp add: onion_def)
  have f1: "fold (\<lambda>p. fst p c rw r) ?ps w = fold (\<lambda>i. emit (Before i)) ids w" for w
    by (simp add: fold_map comp_def)
  have f2: "fold (\<lambda>p. snd p c rw r) (rev ?ps) w = fold (\<lambda>i. emit (After i)) (rev ids) w" for w
    by (simp add: fold_map comp_def rev_map)
  show ?thesis
    by (simp only: m serve_onion_chain f1 f2 fold_emit) simp
qed

section \<open>The dispatcher\<close>

lemma Use_rebuilds:
  "n_handlers (Use n h) = n_handlers n @ [h] \<and> n_middleware (Use n h) = build (n_handlers n @ [h])"
  by (simp add: Use_def Let_def del: build.simps)

lemma store_Get_no_entry:
  "\<not> has_entry (contexts (sharedContextStore w)) r \<Longrightarrow> store_Get r w = None"
  by (simp add: store_Get_def Get_no_entry)

lemma store_Add_eq: "store_Add r c w = Return (registered r c w)"
  by (simp add: store_Add_def contextStore_Add_eq registered_def)

lemma store_Get_registered: "store_Get r (registered r c w) = c"
  by (simp add: store_Get_def registered_def contextStore_Get_def go_index_def)

lemma has_entry_registered: "has_entry (contexts (sharedContextStore (registered r c w))) r"
  by (simp add: registered_def has_entry_def)

lemma no_entry_store_Remove: "\<not> has_entry (contexts (sharedContextStore (store_Remove r w))) r"
  by (simp add: store_Remove_def no_entry_after_Remove)

lemma store_Get_store_Remove: "store_Get r (store_Remove r w) = None"
  by (simp add: store_Remove_def store_Get_def Get_after_Remove)

lemma cancel_store [simp]: "sharedContextStore (cancel a w) = sharedContextStore w"
  by (simp add: cancel_def)

lemma cancel_events [simp]: "events (cancel a w) = events w"
  by (simp add: cancel_def)

lemma store_Remove_events [simp]: "events (store_Remove r w) = events w"
  by (simp add: store_Remove_def)

lemma cancel_cancelled [simp]: "cancelled (cancel a w) = insert a (cancelled w)"
  by (simp add: cancel_def)

lemma world_of_deferred [simp]: "world_of (deferred f out) = f (world_of out)"
  by (cases out) simp_all

lemma panicked_deferred [simp]: "panicked (deferred f out) = panicked out"
  by (cases out) simp_all

lemma Camillo_ServeHTTP_resume:
  "store_Get r w = Some c \<Longrightarrow>
     Camillo_ServeHTTP n rw r w = middleware_ServeHTTP (n_middleware n) (Some c) (NewResponseWriter rw) r w"
  by (simp add: Camillo_ServeHTTP_def)

lemma Camillo_ServeHTTP_fresh:
  "store_Get r w = None \<Longrightarrow>
     Camillo_ServeHTTP n rw r w =
       deferred (cancel (next_addr w))
         (deferred (store_Remove r)
            (middleware_ServeHTTP (n_middleware n) (Some (fresh_ctx n w)) (NewResponseWriter rw) r
               (registered r (Some (fresh_ctx n w)) (w\<lparr>next_addr := Suc (next_addr w)\<rparr>))))"
  by (simp add: Camillo_ServeHTTP_def context_WithCancel_def store_Add_eq fresh_ctx_def Let_def)

text \<open>
  C1. A chain built from handlers that each do some work, call \<^verbatim>\<open>next\<close> once and do some
  more work returns the world in which the first parts have run in list order and then the
  second parts in reverse list order. For handlers that mark their two phases, the marks
  appear in exactly that order, when the chain is entered directly and when a dispatcher
  built from the list serves the request; the dispatcher does not panic.
\<close>

theorem onion_order:
  "middleware_ServeHTTP (build (map (\<lambda>(before, after). MyMiddleware before after) ps)) c rw r w
     = Return (fold (\<lambda>p. snd p c rw r) (rev ps) (fold (\<lambda>p. fst p c rw r) ps w))
   \<and> middleware_ServeHTTP (build (map onion ids)) c rw r w
     = Return (w\<lparr>events := events w @ map Before ids @ map After (rev ids)\<rparr>)
   \<and> \<not> panicked (Camillo_ServeHTTP (NewWithContext b (map onion ids)) rw r w)
   \<and> events (world_of (Camillo_ServeHTTP (NewWithContext b (map onion ids)) rw r w))
     = events w @ map Before ids @ map After (rev ids)"
proof -
  let ?n = "NewWithContext b (map onion ids)"
  have mw: "n_middleware ?n = build (map onion ids)"
    by (simp add: NewWithContext_def)
  have disp: "\<not> panicked (Camillo_ServeHTTP ?n rw r w)
     \<and> events (world_of (Camillo_ServeHTTP ?n rw r w)) = events w @ map Before ids @ map After (rev ids)"
  proof (cases "store_Get r w")
    case None
    show ?thesis
      by (simp add: Camillo_ServeHTTP_fresh [OF None] mw serve_marks registered_def)
  next
    case (Some c')
    show ?thesis
      by (simp add: Camillo_ServeHTTP_resume [OF Some] mw serve_marks)
  qed
  show ?thesis
    using serve_onion_chain [of ps c rw r w] serve_marks [of ids c rw r w] disp by simp
qed

text \<open>
  C2. When \<^verbatim>\<open>Get\<close> finds no context for the request (as when the store has no entry for
  it), the dispatcher derives a cancellable context from its configured base, or from the
  background context when the base is nil, stores it under the request, and enters the chain
  head with that context in the world where the store holds it. Whether the chain returns or
  panics, the dispatcher then removes the entry and cancels the context, and a panic goes on
  to the caller with its value.
\<close>

theorem dispatch_fresh_lifecycle:
  assumes "store_Get r w = None"
    and "ctx = cancelCtx (next_addr w) (case n_ctx n of None \<Rightarrow> Background | Some base \<Rightarrow> base)"
  shows "\<exists>w2. store_Add r (Some ctx) (w\<lparr>next_addr := Suc (next_addr w)\<rparr>) = Return w2
           \<and> store_Get r w2 = Some ctx
           \<and> (\<forall>w3. middleware_ServeHTTP (n_middleware n) (Some ctx) (NewResponseWriter rw) r w2 = Return w3
                 \<longrightarrow> Camillo_ServeHTTP n rw r w = Return (cancel (next_addr w) (store_Remove r w3)))
           \<and> (\<forall>p w3. middleware_ServeHTTP (n_middleware n) (Some ctx) (NewResponseWriter rw) r w2 = Panic p w3
                 \<longrightarrow> Camillo_ServeHTTP n rw r w = Panic p (cancel (next_addr w) (store_Remove r w3)))
           \<and> \<not> has_entry (contexts (sharedContextStore (world_of (Camillo_ServeHTTP n rw r w)))) r
           \<and> store_Get r (world_of (Camillo_ServeHTTP n rw r w)) = None
           \<and> Done (world_of (Camillo_ServeHTTP n rw r w)) ctx"
proof -
  let ?w2 = "registered r (Some ctx) (w\<lparr>next_addr := Suc (next_addr w)\<rparr>)"
  let ?chain = "middleware_ServeHTTP (n_middleware n) (Some ctx) (NewResponseWriter rw) r ?w2"
  have c: "ctx = fresh_ctx n w"
    using assms(2) by (simp add: fresh_ctx_def)
  have eq: "Camillo_ServeHTTP n rw r w = deferred (cancel (next_addr w)) (deferred (store_Remove r) ?chain)"
    using Camillo_ServeHTTP_fresh [OF assms(1), of n rw] by (simp add: c)
  have 1: "store_Add r (Some ctx) (w\<lparr>next_addr := Suc (next_addr w)\<rparr>) = Return ?w2"
    by (rule store_Add_eq)
  have 2: "store_Get r ?w2 = Some ctx"
    by (rule store_Get_registered)
  have 3: "\<forall>w3. ?chain = Return w3
             \<longrightarrow> Camillo_ServeHTTP n rw r w = Return (cancel (next_addr w) (store_Remove r w3))"
    by (simp add: eq)
  have 4: "\<forall>p w3. ?chain = Panic p w3
             \<longrightarrow> Camillo_ServeHTTP n rw r w = Panic p (cancel (next_addr w) (store_Remove r w3))"
    by (simp add: eq)
  have 5: "\<not> has_entry (contexts (sharedContextStore (world_of (Camillo_ServeHTTP n rw r w)))) r"
    by (simp add: eq no_entry_store_Remove)
  have 6: "store_Get r (world_of (Camillo_ServeHTTP n rw r w)) = None"
    using 5 by (simp add: store_Get_def Get_no_entry)
  have 7: "Done (world_of (Camillo_ServeHTTP n rw r w)) ctx"
    by (simp add: eq assms(2))
  from 1 2 3 4 5 6 7 show ?thesis by blast
qed

theorem dispatch_fresh_lifecycle_witness:
  "store_Get 5 world0 = None
   \<and> cancelCtx 0 Background
       = cancelCtx (next_addr world0) (case n_ctx (New [faultingHandler]) of None \<Rightarrow> Background | Some base \<Rightarrow> base)
   \<and> Camillo_ServeHTTP (New [faultingHandler]) (rawWriter 0) 5 world0
       = Panic (PanicString ''boom'')
           (world0\<lparr>sharedContextStore := \<lparr>contexts = Some Map.empty\<rparr>, next_addr := 1, cancelled := {0}\<rparr>)
   \<and> \<not> has_entry (contexts (sharedContextStore (world_of (Camillo_ServeHTTP (New [faultingHandler]) (rawWriter 0) 5 world0)))) 5
   \<and> Done (world_of (Camillo_ServeHTTP (New [faultingHandler]) (rawWriter 0) 5 world0)) (cancelCtx 0 Background)"
proof -
  have g: "store_Get 5 world0 = None"
    by (simp add: store_Get_def world0_def zero_store_def contextStore_Get_def)
  have c: "cancelCtx 0 Background
       = cancelCtx (next_addr world0) (case n_ctx (New [faultingHandler]) of None \<Rightarrow> Background | Some base \<Rightarrow> base)"
    by (simp add: world0_def New_def NewWithContext_def)
  obtain w2 where a: "store_Add 5 (Some (cancelCtx 0 Background)) (world0\<lparr>next_addr := Suc (next_addr world0)\<rparr>) = Return w2"
    and p: "\<forall>p w3. middleware_ServeHTTP (n_middleware (New [faultingHandler])) (Some (cancelCtx 0 Background))
                (NewResponseWriter (rawWriter 0)) 5 w2 = Panic p w3
              \<longrightarrow> Camillo_ServeHTTP (New [faultingHandler]) (rawWriter 0) 5 world0
                    = Panic p (cancel (next_addr world0) (store_Remove 5 w3))"
    and e: "\<not> has_entry (contexts (sharedContextStore (world_of (Camillo_ServeHTTP (New [faultingHandler]) (rawWriter 0) 5 world0)))) 5"
    and d: "Done (world_of (Camillo_ServeHTTP (New [faultingHandler]) (rawWriter 0) 5 world0)) (cancelCtx 0 Background)"
    using dispatch_fresh_lifecycle [OF g c, of "rawWriter 0"] by blast
  have w2: "w2 = world0\<lparr>sharedContextStore := \<lparr>contexts = Some [5 \<mapsto> Some (cancelCtx 0 Background)]\<rparr>, next_addr := 1\<rparr>"
    using a by (simp add: store_Add_def contextStore_Add_def go_assign_def world0_def zero_store_def)
  have "Camillo_ServeHTTP (New [faultingHandler]) (rawWriter 0) 5 world0
       = Panic (PanicString ''boom'')
           (world0\<lparr>sharedContextStore := \<lparr>contexts = Some Map.empty\<rparr>, next_addr := 1, cancelled := {0}\<rparr>)"
    using p by (simp add: w2 New_def NewWithContext_def faultingHandler_def cancel_def store_Remove_def
        contextStore_Remove_def go_delete_def world0_def)
  with g c e d show ?thesis by blast
qed

text \<open>
  C3. When the store already holds a context for the request, serving is the call of the chain
  head with that context and the wrapped writer, in the world the dispatcher was entered in,
  and its outcome is the outcome of the dispatcher: nothing is added, removed or cancelled by
  the dispatcher itself. With an empty chain the world is returned as it was, and with a chain
  of marking handlers the store and the set of cancelled contexts are as before.
\<close>

theorem dispatch_reentrant_frame:
  assumes "store_Get r w = Some c"
  shows "Camillo_ServeHTTP n rw r w
           = middleware_ServeHTTP (n_middleware n) (Some c) (NewResponseWriter rw) r w
         \<and> Camillo_ServeHTTP (NewWithContext b []) rw r w = Return w
         \<and> sharedContextStore (world_of (Camillo_ServeHTTP (NewWithContext b (map onion ids)) rw r w))
             = sharedContextStore w
         \<and> cancelled (world_of (Camillo_ServeHTTP (NewWithContext b (map onion ids)) rw r w))
             = cancelled w"
  by (simp add: Camillo_ServeHTTP_resume [OF assms] NewWithContext_def serve_marks del: build.simps)
    simp

theorem dispatch_reentrant_frame_witness:
  "store_Get 5 (world0\<lparr>sharedContextStore := \<lparr>contexts = Some [5 \<mapsto> Some (callerCtx 3)]\<rparr>\<rparr>) = Some (callerCtx 3)
   \<and> Camillo_ServeHTTP (NewWithContext None [onion 1, onion 2]) (rawWriter 0) 5
        (world0\<lparr>sharedContextStore := \<lparr>contexts = Some [5 \<mapsto> Some (callerCtx 3)]\<rparr>\<rparr>)
      = Return (world0\<lparr>sharedContextStore := \<lparr>contexts = Some [5 \<mapsto> Some (callerCtx 3)]\<rparr>,
                        events := [Before 1, Before 2, After 2, After 1]\<rparr>)"
proof -
  let ?w = "world0\<lparr>sharedContextStore := \<lparr>contexts = Some [5 \<mapsto> Some (callerCtx 3)]\<rparr>\<rparr>"
  have g: "store_Get 5 ?w = Some (callerCtx 3)"
    by (simp add: store_Get_def contextStore_Get_def go_index_def)
  show ?thesis
    using g dispatch_reentrant_frame [OF g, of "NewWithContext None [onion 1, onion 2]" "rawWriter 0"]
    by (simp add: NewWithContext_def onion_def MyMiddleware_def HandlerFunc_def voidMiddleware_def
        emit_def world0_def)
qed


section \<open>The adapter for plain handlers\<close>

lemma Wrap_apply:
  "Wrap handler c rw r nxt w =
     then_do (handler rw r (registered r c w)) (\<lambda>w2. nxt (store_Get r w2) rw r w2)"
  by (simp add: Wrap_def HandlerFunc_def store_Add_eq)

lemma registered_frame:
  "registered r c w = w\<lparr>sharedContextStore := sharedContextStore (registered r c w)\<rparr>"
  by (simp add: registered_def)

text \<open>
  C6. \<^verbatim>\<open>Wrap(h)\<close> first stores the context it is given under the request, changing nothing
  but the store; it then calls \<open>h\<close> with the writer and the request only; when \<open>h\<close> returns
  it reads the store for the request and calls \<^verbatim>\<open>next\<close> with what it reads, which is the
  context it was given whenever \<open>h\<close> left the store alone. When \<open>h\<close> panics, \<^verbatim>\<open>next\<close> is
  not called.
\<close>

theorem Wrap_round_trip:
  "\<exists>w1. store_Add r c w = Return w1
      \<and> w1 = w\<lparr>sharedContextStore := sharedContextStore w1\<rparr>
      \<and> store_Get r w1 = c
      \<and> Wrap handler c rw r nxt w = then_do (handler rw r w1) (\<lambda>w2. nxt (store_Get r w2) rw r w2)
      \<and> (\<forall>w2. handler rw r w1 = Return w2
             \<longrightarrow> Wrap handler c rw r nxt w = nxt (store_Get r w2) rw r w2)
      \<and> (\<forall>p w2. handler rw r w1 = Panic p w2 \<longrightarrow> Wrap handler c rw r nxt w = Panic p w2)
      \<and> (\<forall>w2. handler rw r w1 = Return w2 \<and> sharedContextStore w2 = sharedContextStore w1
             \<longrightarrow> Wrap handler c rw r nxt w = nxt c rw r w2)"
proof -
  let ?w1 = "registered r c w"
  have 1: "store_Add r c w = Return ?w1" by (rule store_Add_eq)
  have 2: "?w1 = w\<lparr>sharedContextStore := sharedContextStore ?w1\<rparr>" by (rule registered_frame)
  have 3: "store_Get r ?w1 = c" by (rule store_Get_registered)
  have 4: "Wrap handler c rw r nxt w = then_do (handler rw r ?w1) (\<lambda>w2. nxt (store_Get r w2) rw r w2)"
    by (rule Wrap_apply)
  have 5: "\<forall>w2. handler rw r ?w1 = Return w2
             \<longrightarrow> Wrap handler c rw r nxt w = nxt (store_Get r w2) rw r w2"
    by (simp add: 4)
  have 6: "\<forall>p w2. handler rw r ?w1 = Panic p w2 \<longrightarrow> Wrap handler c rw r nxt w = Panic p w2"
    by (simp add: 4)
  have 7: "\<forall>w2. handler rw r ?w1 = Return w2 \<and> sharedContextStore w2 = sharedContextStore ?w1
             \<longrightarrow> Wrap handler c rw r nxt w = nxt c rw r w2"
    using 3 by (auto simp add: 4 store_Get_def)
  from 1 2 3 4 5 6 7 show ?thesis by blast
qed

theorem Wrap_round_trip_witness:
  "Wrap echoHandler (Some (callerCtx 3)) (rawWriter 0) 5 (\<lambda>c rw r w. Return (emit (Before (case c of Some (callerCtx a) \<Rightarrow> a | _ \<Rightarrow> 0)) w)) world0
     = Return (world0\<lparr>sharedContextStore := \<lparr>contexts = Some [5 \<mapsto> Some (callerCtx 3)]\<rparr>,
                       events := [WriteHeader (rawWriter 0) 200, Write (rawWriter 0) ''hi'', Before 3]\<rparr>)"
proof -
  let ?nxt = "\<lambda>c rw r w. Return (emit (Before (case c of Some (callerCtx a) \<Rightarrow> a | _ \<Rightarrow> 0)) w)"
  obtain w1 where a: "store_Add 5 (Some (callerCtx 3)) world0 = Return w1"
    and b: "\<forall>w2. echoHandler (rawWriter 0) 5 w1 = Return w2 \<and> sharedContextStore w2 = sharedContextStore w1
             \<longrightarrow> Wrap echoHandler (Some (callerCtx 3)) (rawWriter 0) 5 ?nxt world0
                   = ?nxt (Some (callerCtx 3)) (rawWriter 0) 5 w2"
    using Wrap_round_trip [of 5 "Some (callerCtx 3)" world0 echoHandler "rawWriter 0" ?nxt] by blast
  have w1: "w1 = world0\<lparr>sharedContextStore := \<lparr>contexts = Some [5 \<mapsto> Some (callerCtx 3)]\<rparr>\<rparr>"
    using a by (simp add: store_Add_def contextStore_Add_def go_assign_def world0_def zero_store_def)
  show ?thesis
    using b by (simp add: w1 echoHandler_def rw_Write_def rw_WriteHeader_def emit_def world0_def)
qed

lemma store_Get_has_entry:
  "store_Get r w \<noteq> None \<Longrightarrow> has_entry (contexts (sharedContextStore w)) r"
  by (auto simp add: store_Get_def contextStore_Get_def go_index_def has_entry_def
      split: option.splits if_splits)

lemma keeps_context_then_do:
  assumes "store_Get r w \<noteq> None"
    and "keeps_context r f"
    and "\<forall>w1. store_Get r w1 \<noteq> None \<longrightarrow> keeps_context r (g w1)"
  shows "store_Get r (world_of (then_do (f w) (\<lambda>w1. g w1 w1))) \<noteq> None"
proof (cases "f w")
  case (Return w1)
  from assms(1,2) have "store_Get r (world_of (f w)) \<noteq> None"
    unfolding keeps_context_def by blast
  with Return have k: "store_Get r w1 \<noteq> None" by simp
  with assms(3) have "keeps_context r (g w1)" by blast
  with k have "store_Get r (world_of (g w1 w1)) \<noteq> None"
    unfolding keeps_context_def by blast
  with Return show ?thesis by simp
next
  case (Panic p w1)
  from assms(1,2) have "store_Get r (world_of (f w)) \<noteq> None"
    unfolding keeps_context_def by blast
  with Panic show ?thesis by simp
qed

lemma Wrap_keeps_context:
  assumes "c \<noteq> None" and "keeps_context r (handler rw r)" and "keeps_context_next r nxt"
  shows "store_Get r (world_of (Wrap handler c rw r nxt w)) \<noteq> None"
proof -
  have 1: "store_Get r (registered r c w) \<noteq> None"
    using assms(1) by (simp add: store_Get_registered)
  have 2: "\<forall>w1. store_Get r w1 \<noteq> None \<longrightarrow> keeps_context r ((\<lambda>w1. nxt (store_Get r w1) rw r) w1)"
    using assms(3) unfolding keeps_context_next_def by blast
  from keeps_context_then_do [OF 1 assms(2) 2]
  show ?thesis by (simp add: Wrap_apply)
qed

lemma keeps_context_handler_Wrap:
  assumes "\<forall>rw. keeps_context r (handler rw r)"
  shows "keeps_context_handler r (Wrap handler)"
  unfolding keeps_context_handler_def
proof (intro allI impI)
  fix c :: Context_iface and rw and nxt :: NextFunc
  assume a: "c \<noteq> None \<and> keeps_context_next r nxt"
  from assms have h: "keeps_context r (handler rw r)" by blast
  from a have "store_Get r (world_of (Wrap handler c rw r nxt w)) \<noteq> None" for w
    by (intro Wrap_keeps_context [where handler = handler and rw = rw] h) simp_all
  then show "keeps_context r (Wrap handler c rw r nxt)"
    unfolding keeps_context_def by blast
qed

lemma keeps_context_next_void: "keeps_context_next r (middleware_ServeHTTP voidMiddleware)"
  by (simp add: keeps_context_next_def keeps_context_def)

lemma keeps_context_next_build:
  "\<forall>h \<in> set hs. keeps_context_handler r h \<Longrightarrow> keeps_context_next r (middleware_ServeHTTP (build hs))"
proof (induction hs)
  case Nil
  show ?case by (simp only: build.simps keeps_context_next_void)
next
  case (Cons h hs)
  from Cons have rest: "keeps_context_next r (middleware_ServeHTTP (build hs))" by simp
  from Cons.prems have h: "keeps_context_handler r h" by simp
  show ?case
    unfolding keeps_context_next_def
  proof (intro allI impI)
    fix c rw
    assume "c \<noteq> (None :: Context_iface)"
    with h rest have "keeps_context r (h c rw r (middleware_ServeHTTP (build hs)))"
      unfolding keeps_context_handler_def by blast
    then show "keeps_context r (middleware_ServeHTTP (build (h # hs)) c rw r)"
      by (simp add: keeps_context_def serve_build_Cons del: build.simps)
  qed
qed

lemma keeps_context_dispatcher:
  assumes "keeps_context_next r (middleware_ServeHTTP (n_middleware n))"
  shows "keeps_context r (Camillo_ServeHTTP n rw r)"
  unfolding keeps_context_def
proof (intro allI impI)
  fix w
  assume "store_Get r w \<noteq> None"
  then obtain c where c: "store_Get r w = Some c" by blast
  from assms have "keeps_context r (middleware_ServeHTTP (n_middleware n) (Some c) (NewResponseWriter rw) r)"
    unfolding keeps_context_next_def by blast
  with c show "store_Get r (world_of (Camillo_ServeHTTP n rw r w)) \<noteq> None"
    by (simp add: Camillo_ServeHTTP_resume [OF c] keeps_context_def)
qed

lemma keeps_context_echo: "keeps_context r (echoHandler rw r)"
  by (simp add: keeps_context_def echoHandler_def rw_Write_def rw_WriteHeader_def store_Get_def)

lemma keeps_context_handler_onion: "keeps_context_handler r (onion i)"
proof -
  have e: "store_Get r (emit ev w) = store_Get r w" for ev w
    by (simp add: emit_def store_Get_def)
  show ?thesis
    unfolding keeps_context_handler_def keeps_context_next_def keeps_context_def
  proof (intro allI impI)
    fix c :: Context_iface and rw and nxt :: NextFunc and w
    assume a: "c \<noteq> None \<and> (\<forall>c rw. c \<noteq> None \<longrightarrow>
        (\<forall>w. store_Get r w \<noteq> None \<longrightarrow> store_Get r (world_of (nxt c rw r w)) \<noteq> None))"
      and g: "store_Get r w \<noteq> None"
    from a g have k: "store_Get r (world_of (nxt c rw r (emit (Before i) w))) \<noteq> None"
      by (simp add: e)
    show "store_Get r (world_of (onion i c rw r nxt w)) \<noteq> None"
    proof (cases "nxt c rw r (emit (Before i) w)")
      case (Return w1)
      with k show ?thesis by (simp add: onion_def MyMiddleware_apply e)
    next
      case (Panic p w1)
      with k show ?thesis by (simp add: onion_def MyMiddleware_apply)
    qed
  qed
qed

text \<open>
  Against C10 as it is worded: \<^verbatim>\<open>Wrap\<close> around a dispatcher, called with a nil context for
  request 5 in the world at process start, returns with no entry for the request in the store.
  The nil context it stored is no context to the inner dispatcher, which starts a lifecycle
  of its own and deletes the entry on its way out.
\<close>

theorem Wrap_nil_context_counterexample:
  "Wrap (Camillo_ServeHTTP (New [])) None (rawWriter 0) 5 (middleware_ServeHTTP voidMiddleware) world0
     = Return (world0\<lparr>sharedContextStore := \<lparr>contexts = Some Map.empty\<rparr>, next_addr := 1, cancelled := {0}\<rparr>)
   \<and> \<not> has_entry (contexts (sharedContextStore (world_of
         (Wrap (Camillo_ServeHTTP (New [])) None (rawWriter 0) 5 (middleware_ServeHTTP voidMiddleware) world0)))) 5"
proof -
  have "Wrap (Camillo_ServeHTTP (New [])) None (rawWriter 0) 5 (middleware_ServeHTTP voidMiddleware) world0
     = Return (world0\<lparr>sharedContextStore := \<lparr>contexts = Some Map.empty\<rparr>, next_addr := 1, cancelled := {0}\<rparr>)"
    by (simp add: Wrap_def HandlerFunc_def store_Add_def contextStore_Add_def go_assign_def
        Camillo_ServeHTTP_def store_Get_def contextStore_Get_def go_index_def New_def NewWithContext_def
        context_WithCancel_def cancel_def store_Remove_def contextStore_Remove_def go_delete_def
        world0_def zero_store_def)
  then show ?thesis by (simp add: has_entry_def)
qed

text \<open>
  C10, amended. \<^verbatim>\<open>Wrap\<close> adds an entry for the request and removes none. When it is called
  with a context that is not nil, and the plain handler and \<^verbatim>\<open>next\<close> leave a context
  stored for the request whenever they are entered with one, the store holds a context for the
  request when the adapter is done. Every dispatcher and every chain of the package is such a
  call when its handlers are, nested dispatchers and nested adapters included. Under a
  dispatcher that found no context for the request, the entry is there when the chain comes
  back and gone when the dispatcher returns, deleted by its deferred \<^verbatim>\<open>Remove\<close>.
\<close>

theorem Wrap_never_removes:
  "(c \<noteq> None \<and> keeps_context r (handler rw r) \<and> keeps_context_next r nxt
      \<longrightarrow> store_Get r (world_of (Wrap handler c rw r nxt w)) \<noteq> None
          \<and> has_entry (contexts (sharedContextStore (world_of (Wrap handler c rw r nxt w)))) r)
   \<and> ((\<forall>h \<in> set hs. keeps_context_handler r h)
      \<longrightarrow> keeps_context_next r (middleware_ServeHTTP (build hs))
          \<and> keeps_context r (Camillo_ServeHTTP (NewWithContext base hs) rw r))
   \<and> ((\<forall>rw'. keeps_context r (handler rw' r)) \<longrightarrow> keeps_context_handler r (Wrap handler))
   \<and> (store_Get r w = None \<and> keeps_context r (handler (NewResponseWriter rw) r)
      \<longrightarrow> (\<exists>w2. store_Add r (Some (cancelCtx (next_addr w) b)) (w\<lparr>next_addr := Suc (next_addr w)\<rparr>) = Return w2
             \<and> has_entry (contexts (sharedContextStore (world_of
                   (middleware_ServeHTTP (build [Wrap handler]) (Some (cancelCtx (next_addr w) b))
                      (NewResponseWriter rw) r w2)))) r
             \<and> Camillo_ServeHTTP (NewWithContext (Some b) [Wrap handler]) rw r w
                 = deferred (cancel (next_addr w)) (deferred (store_Remove r)
                     (middleware_ServeHTTP (build [Wrap handler]) (Some (cancelCtx (next_addr w) b))
                        (NewResponseWriter rw) r w2))
             \<and> \<not> has_entry (contexts (sharedContextStore (world_of
                   (Camillo_ServeHTTP (NewWithContext (Some b) [Wrap handler]) rw r w)))) r))"
proof (intro conjI impI)
  assume a: "c \<noteq> None \<and> keeps_context r (handler rw r) \<and> keeps_context_next r nxt"
  then show "store_Get r (world_of (Wrap handler c rw r nxt w)) \<noteq> None"
    using Wrap_keeps_context by blast
  then show "has_entry (contexts (sharedContextStore (world_of (Wrap handler c rw r nxt w)))) r"
    by (rule store_Get_has_entry)
next
  assume a: "\<forall>h \<in> set hs. keeps_context_handler r h"
  then show k: "keeps_context_next r (middleware_ServeHTTP (build hs))"
    by (rule keeps_context_next_build)
  have "n_middleware (NewWithContext base hs) = build hs" by (simp add: NewWithContext_def)
  with k show "keeps_context r (Camillo_ServeHTTP (NewWithContext base hs) rw r)"
    by (intro keeps_context_dispatcher) (simp only:)
next
  assume "\<forall>rw'. keeps_context r (handler rw' r)"
  then show "keeps_context_handler r (Wrap handler)"
    by (rule keeps_context_handler_Wrap)
next
  assume a: "store_Get r w = None \<and> keeps_context r (handler (NewResponseWriter rw) r)"
  let ?n = "NewWithContext (Some b) [Wrap handler]"
  let ?ctx = "cancelCtx (next_addr w) b"
  let ?w2 = "registered r (Some ?ctx) (w\<lparr>next_addr := Suc (next_addr w)\<rparr>)"
  let ?chain = "middleware_ServeHTTP (build [Wrap handler]) (Some ?ctx) (NewResponseWriter rw) r ?w2"
  have f: "fresh_ctx ?n w = ?ctx" by (simp add: fresh_ctx_def NewWithContext_def)
  have mw: "n_middleware ?n = build [Wrap handler]" by (simp add: NewWithContext_def)
  have 1: "store_Add r (Some ?ctx) (w\<lparr>next_addr := Suc (next_addr w)\<rparr>) = Return ?w2"
    by (rule store_Add_eq)
  have "?chain = Wrap handler (Some ?ctx) (NewResponseWriter rw) r (middleware_ServeHTTP voidMiddleware) ?w2"
    by simp
  moreover have "store_Get r (world_of
       (Wrap handler (Some ?ctx) (NewResponseWriter rw) r (middleware_ServeHTTP voidMiddleware) ?w2)) \<noteq> None"
  proof (rule Wrap_keeps_context)
    show "Some ?ctx \<noteq> None" by simp
    show "keeps_context r (handler (NewResponseWriter rw) r)" using a by blast
    show "keeps_context_next r (middleware_ServeHTTP voidMiddleware)" by (rule keeps_context_next_void)
  qed
  ultimately have "store_Get r (world_of ?chain) \<noteq> None"
    by metis
  then have 2: "has_entry (contexts (sharedContextStore (world_of ?chain))) r"
    by (rule store_Get_has_entry)
  have 3: "Camillo_ServeHTTP ?n rw r w = deferred (cancel (next_addr w)) (deferred (store_Remove r) ?chain)"
    using a Camillo_ServeHTTP_fresh [of r w ?n rw] by (simp only: f mw)
  have 4: "\<not> has_entry (contexts (sharedContextStore (world_of (Camillo_ServeHTTP ?n rw r w)))) r"
    by (simp only: 3 world_of_deferred cancel_store no_entry_store_Remove not_False_eq_True)
  from 1 2 3 4
  show "\<exists>w2. store_Add r (Some ?ctx) (w\<lparr>next_addr := Suc (next_addr w)\<rparr>) = Return w2
             \<and> has_entry (contexts (sharedContextStore (world_of
                   (middleware_ServeHTTP (build [Wrap handler]) (Some ?ctx) (NewResponseWriter rw) r w2)))) r
             \<and> Camillo_ServeHTTP ?n rw r w
                 = deferred (cancel (next_addr w)) (deferred (store_Remove r)
                     (middleware_ServeHTTP (build [Wrap handler]) (Some ?ctx) (NewResponseWriter rw) r w2))
             \<and> \<not> has_entry (contexts (sharedContextStore (world_of (Camillo_ServeHTTP ?n rw r w)))) r"
    by blast
qed

theorem Wrap_never_removes_witness:
  "Some Background \<noteq> None
   \<and> keeps_context_handler 5 (Wrap echoHandler)
   \<and> keeps_context_handler 5 (onion 1)
   \<and> (\<forall>rw'. keeps_context 5 (Camillo_ServeHTTP (New [Wrap echoHandler, onion 1]) rw' 5))
   \<and> keeps_context_next 5 (middleware_ServeHTTP voidMiddleware)
   \<and> store_Get 5 world0 = None
   \<and> has_entry (contexts (sharedContextStore (world_of
        (Wrap (Camillo_ServeHTTP (New [Wrap echoHandler, onion 1])) (Some Background) (rawWriter 0) 5
           (middleware_ServeHTTP voidMiddleware) world0)))) 5
   \<and> keeps_context_handler 5 (Wrap (Camillo_ServeHTTP (New [Wrap echoHandler, onion 1])))
   \<and> \<not> has_entry (contexts (sharedContextStore (world_of
        (Camillo_ServeHTTP (NewWithContext (Some Background)
           [Wrap (Camillo_ServeHTTP (New [Wrap echoHandler, onion 1]))]) (rawWriter 0) 5 world0)))) 5"
proof -
  let ?inner = "Camillo_ServeHTTP (New [Wrap echoHandler, onion 1])"
  have h1: "keeps_context_handler 5 (Wrap echoHandler)"
    by (simp add: keeps_context_handler_Wrap keeps_context_echo)
  have h2: "keeps_context_handler 5 (onion 1)"
    by (rule keeps_context_handler_onion)
  have hs: "\<forall>h \<in> set [Wrap echoHandler, onion 1]. keeps_context_handler 5 h"
    using h1 h2 by simp
  have inner: "keeps_context 5 (?inner rw' 5)" for rw'
    using Wrap_never_removes [where r = 5 and hs = "[Wrap echoHandler, onion 1]"
        and base = "Some Background" and rw = rw'] hs
    by (simp only: New_def)
  have g: "store_Get 5 world0 = None"
    by (simp add: store_Get_def world0_def zero_store_def contextStore_Get_def)
  have c: "Some Background \<noteq> None" by simp
  note T = Wrap_never_removes [where c = "Some Background" and r = 5 and handler = ?inner
        and rw = "rawWriter 0" and nxt = "middleware_ServeHTTP voidMiddleware" and w = world0
        and hs = "[Wrap echoHandler, onion 1]" and base = "Some Background" and b = Background]
  from T c inner keeps_context_next_void
  have a: "has_entry (contexts (sharedContextStore (world_of
        (Wrap ?inner (Some Background) (rawWriter 0) 5 (middleware_ServeHTTP voidMiddleware) world0)))) 5"
    by blast
  from T inner have b: "keeps_context_handler 5 (Wrap ?inner)"
    by blast
  from T g inner
  have d: "\<not> has_entry (contexts (sharedContextStore (world_of
        (Camillo_ServeHTTP (NewWithContext (Some Background) [Wrap ?inner]) (rawWriter 0) 5 world0)))) 5"
    by blast
  from c h1 h2 inner keeps_context_next_void g a b d show ?thesis
    by blast
qed

section \<open>Recovery\<close>




end
